theory Spec2Isabelle
  imports Main "HOL-Library.Sublist"
begin

section \<open>JavaScript values and string primitives used by lib/parser.js\<close>

text \<open>
  A JavaScript string is modelled as a \<^typ>\<open>string\<close>: one \<^typ>\<open>char\<close> per code unit, for
  the strings whose code units are all below 256. A value that is a string or
  \<^verbatim>\<open>undefined\<close> is a \<^typ>\<open>string option\<close>, with \<^term>\<open>None\<close> for \<^verbatim>\<open>undefined\<close>.
  A thrown exception is a value of type \<open>error\<close> on the left of a sum.
\<close>

datatype error =
    TypeError     \<comment> \<open>thrown by the engine: a property read or a method call on null or undefined\<close>
  | SyntaxError   \<comment> \<open>thrown by JSON.parse\<close>
  | ParseError    \<comment> \<open>the typed parse failure of the specification; no statement of parser.js throws it\<close>

abbreviation LF :: char where "LF \<equiv> CHR 0x0A"
abbreviation CR :: char where "CR \<equiv> CHR 0x0D"
abbreviation TAB :: char where "TAB \<equiv> CHR 0x09"
abbreviation DQUOTE :: char where "DQUOTE \<equiv> CHR 0x22"
abbreviation BACKSLASH :: char where "BACKSLASH \<equiv> CHR 0x5C"

text \<open>\<^verbatim>\<open>arr[i]\<close>: the element, or \<^verbatim>\<open>undefined\<close> out of range.\<close>

definition index :: "'a list \<Rightarrow> nat \<Rightarrow> 'a option" where
  "index xs i = (if i < length xs then Some (xs ! i) else None)"

text \<open>\<^verbatim>\<open>s.indexOf(p)\<close>: the position of the first occurrence of \<open>p\<close> in \<open>s\<close>, or -1.\<close>

fun indexOf_from :: "string \<Rightarrow> string \<Rightarrow> nat \<Rightarrow> int" where
  "indexOf_from [] p i = (if p = [] then int i else -1)"
| "indexOf_from (c # cs) p i = (if prefix p (c # cs) then int i else indexOf_from cs p (Suc i))"

definition indexOf :: "string \<Rightarrow> string \<Rightarrow> int" where
  "indexOf s p = indexOf_from s p 0"

text \<open>
  \<^verbatim>\<open>s.substring(a, b)\<close>: both arguments are clamped to \<open>[0, length]\<close> and swapped when
  \<open>a > b\<close>; \<^verbatim>\<open>s.substring(a)\<close> runs to the end of the string.
\<close>

definition substring :: "string \<Rightarrow> int \<Rightarrow> int \<Rightarrow> string" where
  "substring s a b =
     (let n = int (length s);
          a' = min (max a 0) n;
          b' = min (max b 0) n;
          lo = min a' b';
          hi = max a' b'
      in take (nat (hi - lo)) (drop (nat lo) s))"

definition substring_from :: "string \<Rightarrow> int \<Rightarrow> string" where
  "substring_from s a = substring s a (int (length s))"

text \<open>
  \<^verbatim>\<open>s.split(sep)\<close> with a string separator: the pieces between the successive
  occurrences of \<open>sep\<close>, found from the left without overlap. The empty separator splits
  into code units. The result of a split with a non-empty separator is never empty.
\<close>

fun cons_first :: "char \<Rightarrow> string list \<Rightarrow> string list" where
  "cons_first c [] = [[c]]"
| "cons_first c (w # ws) = (c # w) # ws"

fun split_sep :: "string \<Rightarrow> string \<Rightarrow> string list" where
  "split_sep sep [] = [[]]"
| "split_sep sep (c # cs) =
     (if prefix sep (c # cs) then [] # split_sep sep (drop (length sep - 1) cs)
      else cons_first c (split_sep sep cs))"

definition split :: "string \<Rightarrow> string \<Rightarrow> string list" where
  "split s sep = (if sep = [] then map (\<lambda>c. [c]) s else split_sep sep s)"

text \<open>\<^verbatim>\<open>s.split(/\r?\n/)\<close>: a line feed, or a carriage return directly before one, separates.\<close>

fun split_crlf :: "string \<Rightarrow> string list" where
  "split_crlf [] = [[]]"
| "split_crlf (c # cs) =
     (if c = LF then [] # split_crlf cs
      else if c = CR \<and> take 1 cs = [LF] then [] # split_crlf (drop 1 cs)
      else cons_first c (split_crlf cs))"

text \<open>
  \<^verbatim>\<open>s.trim()\<close> removes white space and line terminators from both ends; below code
  unit 256 these are tab, line feed, vertical tab, form feed, carriage return, space and
  the no-break space.
\<close>

definition is_space :: "char \<Rightarrow> bool" where
  "is_space c \<longleftrightarrow> c \<in> {CHR 0x09, CHR 0x0A, CHR 0x0B, CHR 0x0C, CHR 0x0D, CHR 0x20, CHR 0xA0}"

definition trim :: "string \<Rightarrow> string" where
  "trim s = rev (dropWhile is_space (rev (dropWhile is_space s)))"

text \<open>
  \<^verbatim>\<open>s.replace(pat, rep)\<close> with a string pattern replaces the first occurrence of
  \<open>pat\<close>. In the replacement text \<^verbatim>\<open>$$\<close> stands for a dollar sign, \<^verbatim>\<open>$&\<close> for the
  matched text, \<^verbatim>\<open>$`\<close> for the text before the match and \<^verbatim>\<open>$'\<close> for the text after
  it; a string pattern has no groups, so every other dollar sign is literal.
\<close>

fun get_substitution :: "string \<Rightarrow> string \<Rightarrow> string \<Rightarrow> string \<Rightarrow> string" where
  "get_substitution m pre post [] = []"
| "get_substitution m pre post [c] = [c]"
| "get_substitution m pre post (c # d # rest) =
     (if c = CHR ''$'' \<and> d = CHR ''$'' then CHR ''$'' # get_substitution m pre post rest
      else if c = CHR ''$'' \<and> d = CHR ''&'' then m @ get_substitution m pre post rest
      else if c = CHR ''$'' \<and> d = CHR 0x60 then pre @ get_substitution m pre post rest
      else if c = CHR ''$'' \<and> d = CHR 0x27 then post @ get_substitution m pre post rest
      else c # get_substitution m pre post (d # rest))"

definition replace :: "string \<Rightarrow> string \<Rightarrow> string \<Rightarrow> string" where
  "replace s pat rep =
     (let i = indexOf s pat in
      if i = -1 then s
      else let pre = take (nat i) s;
               post = drop (nat i + length pat) s
           in pre @ get_substitution pat pre post rep @ post)"

section \<open>parsers.status\<close>

record status_entry =
  file' :: string      \<comment> \<open>the field \<^verbatim>\<open>file\<close>\<close>
  status :: string

record status_result =
  staged :: "status_entry list"
  unstaged :: "status_entry list"
  untracked :: "status_entry list"

text \<open>The body of the \<^verbatim>\<open>forEach\<close> callback: \<open>line\<close> is the pair built by the \<^verbatim>\<open>map\<close>.\<close>

definition status_line :: "status_result \<Rightarrow> string \<times> string \<Rightarrow> status_result" where
  "status_line st line =
     (let fileStatus = fst line;
          fileName = snd line
      in if fileStatus = [] then st
         else if substring fileStatus 0 2 = ''??''
           then st\<lparr>untracked := untracked st @ [\<lparr>file' = fileName, status = fileStatus\<rparr>]\<rparr>
         else if substring fileStatus 0 1 = ''A''
           then st\<lparr>staged := staged st @ [\<lparr>file' = fileName, status = fileStatus\<rparr>]\<rparr>
         else st\<lparr>unstaged := unstaged st @ [\<lparr>file' = fileName, status = fileStatus\<rparr>]\<rparr>)"

definition parsers_status :: "string \<Rightarrow> status_result" where
  "parsers_status gitstatus =
     (let output = map (\<lambda>s. (substring s 0 2, substring_from s 3)) (split gitstatus [LF])
      in foldl status_line \<lparr>staged = [], unstaged = [], untracked = []\<rparr> output)"

section \<open>parsers.commit\<close>

record commit_fields =
  branch :: "string option"
  commit :: "string option"
  changed :: "string option"
  operations :: "string list"

datatype commit_result =
    Rejected "string option"    \<comment> \<open>the object with the one field \<^verbatim>\<open>error\<close>\<close>
  | Committed commit_fields

text \<open>The loop of the rejection path: the first line without a hash sign, else undefined.\<close>

fun first_without_hash :: "string list \<Rightarrow> string option" where
  "first_without_hash [] = None"
| "first_without_hash (l # ls) = (if indexOf l ''#'' = -1 then Some l else first_without_hash ls)"

text \<open>
  \<^verbatim>\<open>s.match(/\[([^\]]+)]/g)\<close>: all the matches from the left, without overlap;
  \<^verbatim>\<open>null\<close> (here \<^term>\<open>None\<close>) when there is none. At an opening bracket the greedy
  class takes the longest run of characters other than the closing bracket; the run must
  be non-empty and a closing bracket must follow it.
\<close>

definition bracket_at :: "string \<Rightarrow> (string \<times> string) option" where
  "bracket_at s =
     (case s of
        [] \<Rightarrow> None
      | c # cs \<Rightarrow>
          (let run = takeWhile (\<lambda>x. x \<noteq> CHR '']'') cs;
               rest = dropWhile (\<lambda>x. x \<noteq> CHR '']'') cs
           in if c = CHR ''['' \<and> run \<noteq> [] \<and> rest \<noteq> []
              then Some (c # run @ '']'', drop 1 rest) else None))"

function bracket_all :: "string \<Rightarrow> string list" where
  "bracket_all [] = []"
| "bracket_all (c # cs) =
     (case bracket_at (c # cs) of
        None \<Rightarrow> bracket_all cs
      | Some (m, rest) \<Rightarrow> m # bracket_all rest)"
  by pat_completeness auto

termination bracket_all
  apply (relation "measure length")
    apply simp
   apply simp
  apply (auto simp: bracket_at_def Let_def split: if_splits)
  apply (rule le_imp_less_Suc)
  apply (rule order_trans [OF diff_le_self length_dropWhile_le])
  done

definition match_bracket :: "string \<Rightarrow> string list option" where
  "match_bracket s = (case bracket_all s of [] \<Rightarrow> None | m # ms \<Rightarrow> Some (m # ms))"

text \<open>
  Every read of an array element that may be undefined, and every null result of
  \<^verbatim>\<open>match\<close>, is followed in the source by a property read or a method call: the
  engine throws a TypeError there.
\<close>

definition parsers_commit :: "string \<Rightarrow> error + commit_result" where
  "parsers_commit output =
     (let commitFailed = (indexOf output ''nothing to commit'' > -1 \<or>
                          indexOf output ''no changes added to commit'' > -1)
      in if commitFailed then Inr (Rejected (first_without_hash (split output [LF])))
         else
           let splitOutput = split output [LF] in
           case index splitOutput 0 of
             None \<Rightarrow> Inl TypeError
           | Some line0 \<Rightarrow>
              (case match_bracket line0 of
                 None \<Rightarrow> Inl TypeError
               | Some ms \<Rightarrow>
                  (case index ms 0 of
                     None \<Rightarrow> Inl TypeError
                   | Some branchAndHash \<Rightarrow>
                      (let branch = substring branchAndHash 1 (int (length branchAndHash) - 1);
                           hash = substring branchAndHash 1 (int (length branchAndHash) - 1)
                       in case index splitOutput 1 of
                            None \<Rightarrow> Inl TypeError
                          | Some line1 \<Rightarrow>
                             (let filesChanged = index (split line1 '' '') 0;
                                  operations = drop 2 splitOutput
                              in Inr (Committed
                                   \<lparr>branch = index (split branch '' '') 0,
                                    commit = index (split hash '' '') 1,
                                    changed = filesChanged,
                                    operations = operations\<rparr>))))))"

section \<open>parsers.branch\<close>

record branch_tree =
  current :: "string option"    \<comment> \<open>\<^verbatim>\<open>null\<close> at the start is \<^term>\<open>None\<close>\<close>
  others :: "string list"

definition branch_line :: "branch_tree \<Rightarrow> string \<Rightarrow> branch_tree" where
  "branch_line tree val =
     (if indexOf val ''*'' > -1 then tree\<lparr>current := Some (trim (replace val ''*'' ''''))\<rparr>
      else if val \<noteq> [] then tree\<lparr>others := others tree @ [trim val]\<rparr>
      else tree)"

definition parsers_branch :: "string \<Rightarrow> branch_tree" where
  "parsers_branch output = foldl branch_line \<lparr>current = None, others = []\<rparr> (split output [LF])"

section \<open>parsers.tag and parsers.syncErr\<close>

text \<open>
  Both functions run the same loop over the array they have split: \<open>i\<close> goes up by one
  in every round, also in a round that has removed the element at \<open>i\<close> with
  \<^verbatim>\<open>splice(i, 1)\<close>, and the bound is the current length.
\<close>

definition splice1 :: "'a list \<Rightarrow> nat \<Rightarrow> 'a list" where
  "splice1 xs i = take i xs @ drop (Suc i) xs"

function remove_empty_loop :: "string list \<Rightarrow> nat \<Rightarrow> string list" where
  "remove_empty_loop tags i =
     (if i < length tags
      then (if length (tags ! i) = 0 then remove_empty_loop (splice1 tags i) (Suc i)
            else remove_empty_loop tags (Suc i))
      else tags)"
  by pat_completeness auto
termination
  by (relation "measure (\<lambda>(tags, i). length tags - i)") (auto simp: splice1_def)

declare remove_empty_loop.simps [simp del]

definition parsers_tag :: "string \<Rightarrow> string list" where
  "parsers_tag output = remove_empty_loop (split_crlf output) 0"

definition parsers_syncErr :: "string \<Rightarrow> string list" where
  "parsers_syncErr output = remove_empty_loop (split output [CR, LF]) 0"

definition parsers_syncSuccess :: "string \<Rightarrow> string" where
  "parsers_syncSuccess output = output"

section \<open>parsers.remotes\<close>

text \<open>
  The result object starts as \<^verbatim>\<open>{}\<close>. An assignment \<^verbatim>\<open>list[k] = v\<close> creates or
  overwrites the property \<open>k\<close>, except for the key \<^verbatim>\<open>__proto__\<close>: that one is the
  accessor inherited from Object.prototype, whose setter ignores a value that is not an
  object and creates no property.
\<close>

definition obj_set :: "(string \<rightharpoonup> string option) \<Rightarrow> string \<Rightarrow> string option \<Rightarrow> (string \<rightharpoonup> string option)" where
  "obj_set obj k v = (if k = ''__proto__'' then obj else obj(k \<mapsto> v))"

definition remotes_line :: "(string \<rightharpoonup> string option) \<Rightarrow> string \<Rightarrow> error + (string \<rightharpoonup> string option)" where
  "remotes_line list val =
     (case index (split val [TAB]) 0 of
        None \<Rightarrow> Inr list
      | Some name \<Rightarrow>
          if name = [] then Inr list
          else (case index (split val [TAB]) 1 of
                  None \<Rightarrow> Inl TypeError
                | Some field \<Rightarrow> Inr (obj_set list name (index (split field '' '') 0))))"

text \<open>The \<^verbatim>\<open>forEach\<close>: an exception thrown by the callback ends the whole call.\<close>

fun remotes_each :: "(string \<rightharpoonup> string option) \<Rightarrow> string list \<Rightarrow> error + (string \<rightharpoonup> string option)" where
  "remotes_each list [] = Inr list"
| "remotes_each list (val # parseme) =
     (case remotes_line list val of
        Inl e \<Rightarrow> Inl e
      | Inr list' \<Rightarrow> remotes_each list' parseme)"

definition parsers_remotes :: "string \<Rightarrow> error + (string \<rightharpoonup> string option)" where
  "parsers_remotes output = remotes_each Map.empty (split output [LF])"

section \<open>JSON.parse\<close>

text \<open>
  The value JSON.parse returns. A string is a list of code units, since an escape
  \<^verbatim>\<open>\uXXXX\<close> yields any code unit up to 65535. A number keeps its literal text: the
  floating-point value it denotes is not computed. The members of an object are listed in
  the order of their first definition, a repeated key overwriting the earlier value.
\<close>

datatype json =
    JNull
  | JBool bool
  | JNumber string
  | JString "nat list"
  | JArray "json list"
  | JObject "(nat list \<times> json) list"

abbreviation units :: "string \<Rightarrow> nat list" where
  "units s \<equiv> map of_char s"

datatype token =
    TLBrace | TRBrace | TLBracket | TRBracket | TColon | TComma
  | TStr "nat list" | TNum string | TTrue | TFalse | TNull

definition is_json_ws :: "char \<Rightarrow> bool" where
  "is_json_ws c \<longleftrightarrow> c = CHR '' '' \<or> c = TAB \<or> c = LF \<or> c = CR"

definition hex_val :: "char \<Rightarrow> nat option" where
  "hex_val c =
     (let n = (of_char c :: nat)
      in if 48 \<le> n \<and> n \<le> 57 then Some (n - 48)
         else if 97 \<le> n \<and> n \<le> 102 then Some (n - 87)
         else if 65 \<le> n \<and> n \<le> 70 then Some (n - 55)
         else None)"

definition escape_unit :: "char \<Rightarrow> nat option" where
  "escape_unit e =
     (if e = DQUOTE then Some 34
      else if e = BACKSLASH then Some 92
      else if e = CHR ''/'' then Some 47
      else if e = CHR ''b'' then Some 8
      else if e = CHR ''f'' then Some 12
      else if e = CHR ''n'' then Some 10
      else if e = CHR ''r'' then Some 13
      else if e = CHR ''t'' then Some 9
      else None)"

definition push_unit :: "nat \<Rightarrow> (nat list \<times> string) option \<Rightarrow> (nat list \<times> string) option" where
  "push_unit u r = (case r of None \<Rightarrow> None | Some (v, rest) \<Rightarrow> Some (u # v, rest))"

text \<open>
  The text after an opening quote, up to the closing one: the code units of the string
  and the input that follows it. A control character below 32, an unknown escape and a
  missing closing quote are errors.
\<close>

fun lex_string :: "string \<Rightarrow> (nat list \<times> string) option" where
  "lex_string [] = None"
| "lex_string (c # cs) =
     (if c = DQUOTE then Some ([], cs)
      else if c = BACKSLASH then
        (case cs of
           [] \<Rightarrow> None
         | e # es \<Rightarrow>
            if e = CHR ''u'' then
              (case es of
                 h1 # h2 # h3 # h4 # rest \<Rightarrow>
                   (case (hex_val h1, hex_val h2, hex_val h3, hex_val h4) of
                      (Some a, Some b, Some c, Some d) \<Rightarrow>
                        push_unit (((a * 16 + b) * 16 + c) * 16 + d) (lex_string rest)
                    | _ \<Rightarrow> None)
               | _ \<Rightarrow> None)
            else (case escape_unit e of
                    None \<Rightarrow> None
                  | Some u \<Rightarrow> push_unit u (lex_string es)))
      else if (of_char c :: nat) < 32 then None
      else push_unit (of_char c) (lex_string cs))"

definition is_digit :: "char \<Rightarrow> bool" where
  "is_digit c \<longleftrightarrow> (48::nat) \<le> of_char c \<and> (of_char c :: nat) \<le> 57"

definition is_num_char :: "char \<Rightarrow> bool" where
  "is_num_char c \<longleftrightarrow> is_digit c \<or> c \<in> {CHR ''-'', CHR ''+'', CHR ''.'', CHR ''e'', CHR ''E''}"

text \<open>
  The grammar of a number: an optional minus sign, then zero or a digit string without a
  leading zero, then an optional fraction and an optional exponent. Each function takes
  the text left and returns what follows the part it has read.
\<close>

definition num_int :: "string \<Rightarrow> string option" where
  "num_int s =
     (case s of
        [] \<Rightarrow> None
      | d # r \<Rightarrow> if d = CHR ''0'' then Some r
                 else if is_digit d then Some (dropWhile is_digit r)
                 else None)"

definition num_digits :: "string \<Rightarrow> string option" where
  "num_digits s =
     (case s of
        [] \<Rightarrow> None
      | d # r \<Rightarrow> if is_digit d then Some (dropWhile is_digit r) else None)"

definition num_frac :: "string \<Rightarrow> string option" where
  "num_frac s = (case s of [] \<Rightarrow> Some [] | d # r \<Rightarrow> if d = CHR ''.'' then num_digits r else Some s)"

definition num_exp :: "string \<Rightarrow> string option" where
  "num_exp s =
     (case s of
        [] \<Rightarrow> Some []
      | d # r \<Rightarrow>
          if d = CHR ''e'' \<or> d = CHR ''E''
          then (case r of
                  [] \<Rightarrow> None
                | g # q \<Rightarrow> if g = CHR ''+'' \<or> g = CHR ''-'' then num_digits q else num_digits r)
          else Some s)"

definition valid_number :: "string \<Rightarrow> bool" where
  "valid_number s =
     (case num_int (case s of [] \<Rightarrow> [] | d # r \<Rightarrow> if d = CHR ''-'' then r else s) of
        None \<Rightarrow> False
      | Some r1 \<Rightarrow>
         (case num_frac r1 of
            None \<Rightarrow> False
          | Some r2 \<Rightarrow> (case num_exp r2 of None \<Rightarrow> False | Some r3 \<Rightarrow> r3 = [])))"

definition push_token :: "token \<Rightarrow> token list option \<Rightarrow> token list option" where
  "push_token t r = (case r of None \<Rightarrow> None | Some ts \<Rightarrow> Some (t # ts))"

text \<open>
  The tokens of a JSON text, or \<^term>\<open>None\<close> where no token starts. A number token is
  the longest run of number characters; what may follow a number in a JSON text is no
  number character, so a run that is not a number is an error of the text.
\<close>

function tokens :: "string \<Rightarrow> token list option" where
  "tokens [] = Some []"
| "tokens (c # cs) =
     (if is_json_ws c then tokens cs
      else if c = CHR ''{'' then push_token TLBrace (tokens cs)
      else if c = CHR ''}'' then push_token TRBrace (tokens cs)
      else if c = CHR ''['' then push_token TLBracket (tokens cs)
      else if c = CHR '']'' then push_token TRBracket (tokens cs)
      else if c = CHR '':'' then push_token TColon (tokens cs)
      else if c = CHR '','' then push_token TComma (tokens cs)
      else if c = DQUOTE then
        (case lex_string cs of
           None \<Rightarrow> None
         | Some (v, rest) \<Rightarrow> push_token (TStr v) (tokens rest))
      else if is_num_char c then
        (if valid_number (c # takeWhile is_num_char cs)
         then push_token (TNum (c # takeWhile is_num_char cs)) (tokens (dropWhile is_num_char cs))
         else None)
      else if prefix ''true'' (c # cs) then push_token TTrue (tokens (drop 3 cs))
      else if prefix ''false'' (c # cs) then push_token TFalse (tokens (drop 4 cs))
      else if prefix ''null'' (c # cs) then push_token TNull (tokens (drop 3 cs))
      else None)"
  by pat_completeness auto
termination
proof -
  have lex: "lex_string s = Some (v, rest) \<Longrightarrow> length rest \<le> length s"
    for s rest :: string and v :: "nat list"
  proof (induction "length s" arbitrary: s v rule: less_induct)
    case less
    show ?case
    proof (cases s)
      case Nil
      with less.prems show ?thesis by simp
    next
      case (Cons c cs)
      have ih: "length rest \<le> length s'"
        if "lex_string s' = Some (v', rest)" "length s' \<le> length cs" for s' v'
        using less.hyps [of s' v'] that Cons by simp
      from less.prems show ?thesis
        unfolding Cons
        by (auto simp: push_unit_def le_Suc_eq
              split: if_splits list.splits option.splits prod.splits dest!: ih)
    qed
  qed
  show ?thesis
    by (relation "measure length") (auto dest: lex simp: less_Suc_eq_le length_dropWhile_le)
qed

text \<open>
  The parser reads the tokens from the left with a stack of the enclosing arrays and
  objects: \<open>FArr es\<close> is an array whose elements so far are \<open>es\<close>, \<open>FObj ms k\<close> an object
  with the members \<open>ms\<close> whose next value belongs to the key \<open>k\<close>.
\<close>

datatype frame = FArr "json list" | FObj "(nat list \<times> json) list" "nat list"

datatype pstate =
    Value "frame list"                                 \<comment> \<open>a value must come\<close>
  | ArrOpen "frame list"                               \<comment> \<open>after an opening bracket\<close>
  | ObjOpen "frame list"                               \<comment> \<open>after an opening brace\<close>
  | Key "(nat list \<times> json) list" "frame list"          \<comment> \<open>after a comma in an object\<close>
  | Colon "(nat list \<times> json) list" "nat list" "frame list"   \<comment> \<open>after a key\<close>
  | ArrNext "json list" "frame list"                   \<comment> \<open>after an element\<close>
  | ObjNext "(nat list \<times> json) list" "frame list"      \<comment> \<open>after a member\<close>
  | Done json                                          \<comment> \<open>the text is complete\<close>

fun obj_put :: "(nat list \<times> json) list \<Rightarrow> nat list \<Rightarrow> json \<Rightarrow> (nat list \<times> json) list" where
  "obj_put [] k v = [(k, v)]"
| "obj_put ((k', v') # ms) k v = (if k' = k then (k, v) # ms else (k', v') # obj_put ms k v)"

fun deliver :: "json \<Rightarrow> frame list \<Rightarrow> pstate" where
  "deliver v [] = Done v"
| "deliver v (FArr es # st) = ArrNext (es @ [v]) st"
| "deliver v (FObj ms k # st) = ObjNext (obj_put ms k v) st"

fun start_value :: "token \<Rightarrow> frame list \<Rightarrow> pstate option" where
  "start_value (TStr s) st = Some (deliver (JString s) st)"
| "start_value (TNum n) st = Some (deliver (JNumber n) st)"
| "start_value TTrue st = Some (deliver (JBool True) st)"
| "start_value TFalse st = Some (deliver (JBool False) st)"
| "start_value TNull st = Some (deliver JNull st)"
| "start_value TLBracket st = Some (ArrOpen st)"
| "start_value TLBrace st = Some (ObjOpen st)"
| "start_value _ st = None"

fun parse_step :: "pstate \<Rightarrow> token \<Rightarrow> pstate option" where
  "parse_step (Value st) t = start_value t st"
| "parse_step (ArrOpen st) t =
     (if t = TRBracket then Some (deliver (JArray []) st) else start_value t (FArr [] # st))"
| "parse_step (ObjOpen st) t =
     (case t of
        TRBrace \<Rightarrow> Some (deliver (JObject []) st)
      | TStr k \<Rightarrow> Some (Colon [] k st)
      | _ \<Rightarrow> None)"
| "parse_step (Key ms st) t = (case t of TStr k \<Rightarrow> Some (Colon ms k st) | _ \<Rightarrow> None)"
| "parse_step (Colon ms k st) t = (if t = TColon then Some (Value (FObj ms k # st)) else None)"
| "parse_step (ArrNext es st) t =
     (case t of
        TComma \<Rightarrow> Some (Value (FArr es # st))
      | TRBracket \<Rightarrow> Some (deliver (JArray es) st)
      | _ \<Rightarrow> None)"
| "parse_step (ObjNext ms st) t =
     (case t of
        TComma \<Rightarrow> Some (Key ms st)
      | TRBrace \<Rightarrow> Some (deliver (JObject ms) st)
      | _ \<Rightarrow> None)"
| "parse_step (Done v) t = None"

fun parse_tokens :: "pstate \<Rightarrow> token list \<Rightarrow> pstate option" where
  "parse_tokens ps [] = Some ps"
| "parse_tokens ps (t # ts) =
     (case parse_step ps t of None \<Rightarrow> None | Some ps' \<Rightarrow> parse_tokens ps' ts)"

definition JSON_parse :: "string \<Rightarrow> error + json" where
  "JSON_parse text =
     (case tokens text of
        None \<Rightarrow> Inl SyntaxError
      | Some ts \<Rightarrow>
         (case parse_tokens (Value []) ts of
            Some (Done v) \<Rightarrow> Inr v
          | _ \<Rightarrow> Inl SyntaxError))"

section \<open>parsers.log\<close>

text \<open>
  The expression \<^verbatim>\<open>/".*?": "(.*?)"[,}]/g\<close>. A dot matches every character but a line
  terminator. Both stars are lazy: at each position the rest of the expression is tried
  first, and only when it fails is one more character taken.

  \<open>kv_value\<close> matches the group and what follows it, \<open>kv_key\<close> the first star and what
  follows it, \<open>kv_at\<close> the whole expression at the start of its argument; each returns
  the text of the group and the input after the match.
\<close>

definition is_dot :: "char \<Rightarrow> bool" where
  "is_dot c \<longleftrightarrow> c \<noteq> LF \<and> c \<noteq> CR"

fun kv_value :: "string \<Rightarrow> (string \<times> string) option" where
  "kv_value [] = None"
| "kv_value (c # cs) =
     (if c = DQUOTE \<and> (take 1 cs = '','' \<or> take 1 cs = ''}'') then Some ([], drop 1 cs)
      else if is_dot c then
        (case kv_value cs of None \<Rightarrow> None | Some (v, rest) \<Rightarrow> Some (c # v, rest))
      else None)"

fun kv_key :: "string \<Rightarrow> (string \<times> string) option" where
  "kv_key [] = None"
| "kv_key (c # cs) =
     (case (if prefix [DQUOTE, CHR '':'', CHR '' '', DQUOTE] (c # cs)
            then kv_value (drop 3 cs) else None) of
        Some r \<Rightarrow> Some r
      | None \<Rightarrow> if is_dot c then kv_key cs else None)"

definition kv_at :: "string \<Rightarrow> (string \<times> string) option" where
  "kv_at s = (case s of [] \<Rightarrow> None | c # cs \<Rightarrow> if c = DQUOTE then kv_key cs else None)"

text \<open>
  A global search cuts the subject into the matches, found from the left without
  overlap, and the characters between them. \<open>Match m g\<close> is a match with the text \<open>m\<close>
  and the group \<open>g\<close>.
\<close>

datatype seg = Lit char | Match string string

function kv_scan :: "string \<Rightarrow> seg list" where
  "kv_scan [] = []"
| "kv_scan (c # cs) =
     (case kv_at (c # cs) of
        None \<Rightarrow> Lit c # kv_scan cs
      | Some (g, rest) \<Rightarrow> Match (take (Suc (length cs) - length rest) (c # cs)) g # kv_scan rest)"
  by pat_completeness auto
termination
proof -
  have val: "kv_value s = Some (g, rest) \<Longrightarrow> length rest \<le> length s" for s g rest
    by (induction s arbitrary: g)
       (auto simp: le_Suc_eq split: if_splits option.splits prod.splits)
  have key: "kv_key s = Some (g, rest) \<Longrightarrow> length rest \<le> length s" for s g rest
  proof (induction s)
    case Nil
    then show ?case by simp
  next
    case (Cons c cs)
    show ?case
    proof (cases "prefix [DQUOTE, CHR '':'', CHR '' '', DQUOTE] (c # cs) \<and> kv_value (drop 3 cs) \<noteq> None")
      case True
      with Cons.prems have "kv_value (drop 3 cs) = Some (g, rest)" by auto
      then have "length rest \<le> length (drop 3 cs)" by (rule val)
      then show ?thesis by simp
    next
      case False
      with Cons.prems have "kv_key cs = Some (g, rest)"
        by (auto split: if_splits option.splits)
      then have "length rest \<le> length cs" by (rule Cons.IH)
      then show ?thesis by simp
    qed
  qed
  show ?thesis
    by (relation "measure length")
       (auto simp: kv_at_def less_Suc_eq_le split: if_splits dest: key)
qed

text \<open>\<^verbatim>\<open>s.match(re)\<close>: the texts of all the matches; the empty list stands for null.\<close>

fun seg_match :: "seg \<Rightarrow> string list" where
  "seg_match (Lit c) = []"
| "seg_match (Match m g) = [m]"

definition match_kv :: "string \<Rightarrow> string list" where
  "match_kv s = concat (map seg_match (kv_scan s))"

text \<open>\<^verbatim>\<open>s.replace(re, '$1')\<close>: every match is replaced by its group.\<close>

fun seg_group :: "seg \<Rightarrow> string" where
  "seg_group (Lit c) = [c]"
| "seg_group (Match m g) = g"

definition replace_kv_group :: "string \<Rightarrow> string" where
  "replace_kv_group s = concat (map seg_group (kv_scan s))"

text \<open>\<^verbatim>\<open>s.replace(/\"/g, '\\"')\<close>: a backslash is put before every double quote.\<close>

definition escape_quotes :: "string \<Rightarrow> string" where
  "escape_quotes s = concat (map (\<lambda>c. if c = DQUOTE then [BACKSLASH, DQUOTE] else [c]) s)"

text \<open>The body of the loop, for the match \<open>m\<close>, that is \<^verbatim>\<open>h[i]\<close>.\<close>

definition log_repair :: "string \<Rightarrow> string \<Rightarrow> string" where
  "log_repair log m =
     (let hh = replace_kv_group m;
          hhh = escape_quotes hh
      in replace log hh hhh)"

text \<open>
  The loop runs over the matches from the last to the first; with no match (\<open>h\<close> is
  null) the text is parsed as it is.
\<close>

definition parsers_log :: "string \<Rightarrow> error + json" where
  "parsers_log output =
     (let log = ''['' @ substring output 0 (int (length output) - 1) @ '']'';
          h = match_kv log
      in JSON_parse (foldl log_repair log (rev h)))"

section \<open>Facts about the string primitives\<close>

lemma substring_0_2: "substring s 0 2 = take 2 s"
  by (cases "length s \<ge> 2") (auto simp: substring_def Let_def min_def max_def)

lemma substring_0_1: "substring s 0 1 = take 1 s"
  by (cases s) (auto simp: substring_def Let_def min_def max_def)

lemma substring_from_3: "substring_from s 3 = drop 3 s"
  by (cases "length s \<ge> 3") (auto simp: substring_from_def substring_def Let_def min_def max_def)

lemma substring_butlast: "substring s 0 (int (length s) - 1) = butlast s"
  by (cases s) (auto simp: substring_def Let_def butlast_conv_take min_def max_def)

lemma indexOf_from_ge: "indexOf_from s p i \<ge> -1"
  by (induction s arbitrary: i) auto

lemma indexOf_from_sublist: "indexOf_from s p i > -1 \<longleftrightarrow> sublist p s"
  by (induction s arbitrary: i) (auto simp: sublist_Cons_right)

lemma indexOf_sublist: "indexOf s p > -1 \<longleftrightarrow> sublist p s"
  by (simp add: indexOf_def indexOf_from_sublist)

lemma indexOf_none: "indexOf s p = -1 \<longleftrightarrow> \<not> sublist p s"
  using indexOf_from_ge [of s p 0] indexOf_from_sublist [of s p 0]
  by (auto simp: indexOf_def)

lemma sublist_single: "sublist [c] s \<longleftrightarrow> c \<in> set s"
  by (induction s) (auto simp: sublist_Cons_right)

lemma indexOf_from_single:
  "indexOf_from s [c] i =
     (if c \<in> set s then int (i + length (takeWhile (\<lambda>x. x \<noteq> c) s)) else -1)"
  by (induction s arbitrary: i) auto

lemma take_drop_remove1:
  "c \<in> set s \<Longrightarrow>
     take (length (takeWhile (\<lambda>x. x \<noteq> c) s)) s @ drop (Suc (length (takeWhile (\<lambda>x. x \<noteq> c) s))) s
       = remove1 c s"
  by (induction s) auto

lemma replace_single_empty: "replace s [c] [] = remove1 c s"
proof (cases "c \<in> set s")
  case True
  then show ?thesis
    by (simp add: replace_def indexOf_def indexOf_from_single Let_def take_drop_remove1)
next
  case False
  then show ?thesis
    by (simp add: replace_def indexOf_def indexOf_from_single remove1_idem)
qed

lemma split_sep_single:
  "split_sep [c] s = takeWhile (\<lambda>x. x \<noteq> c) s #
     (if c \<in> set s then split_sep [c] (drop 1 (dropWhile (\<lambda>x. x \<noteq> c) s)) else [])"
  by (induction s) auto

lemma split_single_0: "index (split s [c]) 0 = Some (takeWhile (\<lambda>x. x \<noteq> c) s)"
  by (subst split_def, simp, subst split_sep_single) (simp add: index_def)

lemma split_single_1:
  "index (split s [c]) (Suc 0) =
     (if c \<in> set s then Some (takeWhile (\<lambda>x. x \<noteq> c) (drop 1 (dropWhile (\<lambda>x. x \<noteq> c) s))) else None)"
proof (cases "c \<in> set s")
  case True
  have "split s [c] = takeWhile (\<lambda>x. x \<noteq> c) s # split_sep [c] (drop 1 (dropWhile (\<lambda>x. x \<noteq> c) s))"
    using True by (simp add: split_def split_sep_single [of c s])
  also have "split_sep [c] (drop 1 (dropWhile (\<lambda>x. x \<noteq> c) s)) =
      takeWhile (\<lambda>x. x \<noteq> c) (drop 1 (dropWhile (\<lambda>x. x \<noteq> c) s)) #
      (if c \<in> set (drop 1 (dropWhile (\<lambda>x. x \<noteq> c) s))
       then split_sep [c] (drop 1 (dropWhile (\<lambda>x. x \<noteq> c) (drop 1 (dropWhile (\<lambda>x. x \<noteq> c) s)))) else [])"
    by (rule split_sep_single)
  finally show ?thesis using True by (simp add: index_def)
next
  case False
  then have "split s [c] = [takeWhile (\<lambda>x. x \<noteq> c) s]"
    by (simp add: split_def split_sep_single [of c s])
  with False show ?thesis by (simp add: index_def)
qed

lemma takeWhile_upto:
  "c \<notin> set xs \<Longrightarrow> takeWhile (\<lambda>x. x \<noteq> c) (xs @ c # ys) = xs"
  by (induction xs) auto

lemma dropWhile_upto:
  "c \<notin> set xs \<Longrightarrow> dropWhile (\<lambda>x. x \<noteq> c) (xs @ c # ys) = c # ys"
  by (induction xs) auto

lemma get_substitution_plain: "CHR ''$'' \<notin> set r \<Longrightarrow> get_substitution m a b r = r"
  by (induction m a b r rule: get_substitution.induct) auto

lemma indexOf_from_skip:
  "p \<noteq> [] \<Longrightarrow> hd p \<notin> set x \<Longrightarrow> indexOf_from (x @ s) p i = indexOf_from s p (i + length x)"
proof (induction x arbitrary: i)
  case Nil
  show ?case by simp
next
  case (Cons c x)
  then have "\<not> prefix p (c # x @ s)" by (cases p) auto
  with Cons show ?case by simp
qed

lemma replace_first:
  assumes "p \<noteq> []" and "hd p \<notin> set a"
  shows "replace (a @ p @ b) p r = a @ get_substitution p a b r @ b"
proof -
  have "indexOf (a @ p @ b) p = int (length a)"
    using assms by (cases p) (simp_all add: indexOf_def indexOf_from_skip)
  then show ?thesis by (simp add: replace_def)
qed

lemma indexOf_from_found:
  "indexOf_from s p k \<noteq> -1 \<Longrightarrow>
     \<exists>n. indexOf_from s p k = int (k + n) \<and> prefix p (drop n s)"
proof (induction s arbitrary: k)
  case Nil
  then show ?case by (auto split: if_splits)
next
  case (Cons c s)
  show ?case
  proof (cases "prefix p (c # s)")
    case True
    then have "indexOf_from (c # s) p k = int (k + 0) \<and> prefix p (drop 0 (c # s))" by simp
    then show ?thesis by blast
  next
    case False
    with Cons.prems have "indexOf_from s p (Suc k) \<noteq> -1" by simp
    from Cons.IH [OF this] obtain n where "indexOf_from s p (Suc k) = int (Suc k + n)" "prefix p (drop n s)"
      by blast
    with False have "indexOf_from (c # s) p k = int (k + Suc n) \<and> prefix p (drop (Suc n) (c # s))"
      by simp
    then show ?thesis by blast
  qed
qed

lemma replace_self: "CHR ''$'' \<notin> set p \<Longrightarrow> replace s p p = s"
proof (cases "indexOf s p = -1")
  case True
  then show ?thesis by (simp add: replace_def)
next
  case False
  assume nd: "CHR ''$'' \<notin> set p"
  from False obtain n where i: "indexOf s p = int n" and pre: "prefix p (drop n s)"
    using indexOf_from_found [of s p 0] by (auto simp: indexOf_def)
  from pre obtain r where r: "drop n s = p @ r" by (auto simp: prefix_def)
  then have "drop (n + length p) s = r"
    by (metis add.commute append_eq_conv_conj drop_drop)
  moreover have "s = take n s @ drop n s" by simp
  ultimately have "take n s @ p @ drop (n + length p) s = s" using r by metis
  with i nd show ?thesis
    by (simp add: replace_def get_substitution_plain)
qed

section \<open>The status transform\<close>

lemma status_line_step:
  "status_line st (take 2 l, drop 3 l) =
     (if l = [] then st
      else if take 2 l = ''??''
        then st\<lparr>untracked := untracked st @ [\<lparr>file' = drop 3 l, status = take 2 l\<rparr>]\<rparr>
      else if take 1 l = ''A''
        then st\<lparr>staged := staged st @ [\<lparr>file' = drop 3 l, status = take 2 l\<rparr>]\<rparr>
      else st\<lparr>unstaged := unstaged st @ [\<lparr>file' = drop 3 l, status = take 2 l\<rparr>]\<rparr>)"
proof -
  have t1: "take (Suc 0) (take 2 l) = take (Suc 0) l" by (simp add: min_def)
  show ?thesis
    by (simp add: status_line_def substring_0_2 substring_0_1 t1)
qed

lemma status_fold:
  "foldl status_line st (map (\<lambda>s. (take 2 s, drop 3 s)) ls) =
     \<lparr>staged = staged st @ map (\<lambda>l. \<lparr>file' = drop 3 l, status = take 2 l\<rparr>)
                 (filter (\<lambda>l. l \<noteq> [] \<and> take 2 l \<noteq> ''??'' \<and> take 1 l = ''A'') ls),
      unstaged = unstaged st @ map (\<lambda>l. \<lparr>file' = drop 3 l, status = take 2 l\<rparr>)
                 (filter (\<lambda>l. l \<noteq> [] \<and> take 2 l \<noteq> ''??'' \<and> take 1 l \<noteq> ''A'') ls),
      untracked = untracked st @ map (\<lambda>l. \<lparr>file' = drop 3 l, status = take 2 l\<rparr>)
                 (filter (\<lambda>l. l \<noteq> [] \<and> take 2 l = ''??'') ls)\<rparr>"
proof (induction ls arbitrary: st)
  case Nil
  show ?case by simp
next
  case (Cons l ls)
  show ?case
    by (simp add: Cons.IH status_line_step)
qed

text \<open>
  Claim C4. For every input, the status transform puts each non-empty line into exactly
  one bucket: \<open>untracked\<close> when its first two characters are \<^verbatim>\<open>??\<close>, else \<open>staged\<close>
  when its first character is \<^verbatim>\<open>A\<close>, else \<open>unstaged\<close>; each entry carries the two
  characters of the code and the text from offset 3, the order of the lines is kept, and
  the three buckets together have as many entries as the input has non-empty lines.
\<close>

theorem status_buckets:
  "parsers_status s =
     \<lparr>staged = map (\<lambda>l. \<lparr>file' = drop 3 l, status = take 2 l\<rparr>)
                 (filter (\<lambda>l. take 2 l \<noteq> ''??'' \<and> take 1 l = ''A'') (filter (\<lambda>l. l \<noteq> []) (split s [LF]))),
      unstaged = map (\<lambda>l. \<lparr>file' = drop 3 l, status = take 2 l\<rparr>)
                 (filter (\<lambda>l. take 2 l \<noteq> ''??'' \<and> take 1 l \<noteq> ''A'') (filter (\<lambda>l. l \<noteq> []) (split s [LF]))),
      untracked = map (\<lambda>l. \<lparr>file' = drop 3 l, status = take 2 l\<rparr>)
                 (filter (\<lambda>l. take 2 l = ''??'') (filter (\<lambda>l. l \<noteq> []) (split s [LF])))\<rparr>
   \<and> length (staged (parsers_status s)) + length (unstaged (parsers_status s))
       + length (untracked (parsers_status s)) = length (filter (\<lambda>l. l \<noteq> []) (split s [LF]))"
proof -
  let ?ls = "split s [LF]"
  have eq: "parsers_status s = foldl status_line \<lparr>staged = [], unstaged = [], untracked = []\<rparr>
              (map (\<lambda>s. (take 2 s, drop 3 s)) ?ls)"
    by (simp add: parsers_status_def substring_0_2 substring_from_3)
  have count: "length (filter (\<lambda>l. l \<noteq> [] \<and> take 2 l \<noteq> ''??'' \<and> take 1 l = ''A'') ls)
        + length (filter (\<lambda>l. l \<noteq> [] \<and> take 2 l \<noteq> ''??'' \<and> take 1 l \<noteq> ''A'') ls)
        + length (filter (\<lambda>l. l \<noteq> [] \<and> take 2 l = ''??'') ls)
        = length (filter (\<lambda>l. l \<noteq> []) ls)" for ls :: "string list"
    by (induction ls) auto
  show ?thesis
    unfolding eq status_fold using count [of ?ls]
    by (simp add: conj_commute)
qed

text \<open>The example of the specification, one line for each bucket.\<close>

theorem status_buckets_witness:
  "parsers_status ''?? new.txt\<newline>A  staged.txt\<newline> M mod.txt'' =
     \<lparr>staged = [\<lparr>file' = ''staged.txt'', status = ''A ''\<rparr>],
      unstaged = [\<lparr>file' = ''mod.txt'', status = '' M''\<rparr>],
      untracked = [\<lparr>file' = ''new.txt'', status = ''??''\<rparr>]\<rparr>"
  using status_buckets [of "''?? new.txt\<newline>A  staged.txt\<newline> M mod.txt''"]
  by (simp add: split_def)

section \<open>The commit transform\<close>

lemma first_without_hash_find:
  "first_without_hash ls = find (\<lambda>l. CHR ''#'' \<notin> set l) ls"
  by (induction ls) (auto simp: indexOf_none sublist_single)

lemma bracket_all_none:
  "\<not> (\<exists>a b c. l = a @ ''['' @ b @ '']'' @ c \<and> b \<noteq> [] \<and> CHR '']'' \<notin> set b) \<Longrightarrow> bracket_all l = []"
proof (induction l rule: bracket_all.induct)
  case 1
  show ?case by simp
next
  case (2 c cs)
  show ?case
  proof (cases "bracket_at (c # cs)")
    case None
    have "\<not> (\<exists>a b d. cs = a @ ''['' @ b @ '']'' @ d \<and> b \<noteq> [] \<and> CHR '']'' \<notin> set b)"
    proof
      assume "\<exists>a b d. cs = a @ ''['' @ b @ '']'' @ d \<and> b \<noteq> [] \<and> CHR '']'' \<notin> set b"
      then obtain a b d where "cs = a @ ''['' @ b @ '']'' @ d" "b \<noteq> []" "CHR '']'' \<notin> set b" by blast
      then have "c # cs = (c # a) @ ''['' @ b @ '']'' @ d \<and> b \<noteq> [] \<and> CHR '']'' \<notin> set b" by simp
      with "2.prems" show False by blast
    qed
    with None "2.IH"(1) show ?thesis by simp
  next
    case (Some p)
    obtain m rest where p: "p = (m, rest)" by (cases p)
    let ?run = "takeWhile (\<lambda>x. x \<noteq> CHR '']'') cs"
    let ?rest = "dropWhile (\<lambda>x. x \<noteq> CHR '']'') cs"
    from Some p have c: "c = CHR ''[''" and run: "?run \<noteq> []" and rest: "?rest \<noteq> []"
      by (auto simp: bracket_at_def Let_def split: if_splits)
    from rest have "hd ?rest = CHR '']''"
      using hd_dropWhile [of "\<lambda>x. x \<noteq> CHR '']''" cs] by simp
    with rest have "?rest = '']'' @ tl ?rest" by (cases ?rest) auto
    then have "cs = ?run @ '']'' @ tl ?rest"
      using takeWhile_dropWhile_id [of "\<lambda>x. x \<noteq> CHR '']''" cs] by simp
    then have "c # cs = [] @ ''['' @ ?run @ '']'' @ tl ?rest" using c by simp
    moreover have "CHR '']'' \<notin> set ?run" by (auto dest: set_takeWhileD)
    ultimately have "\<exists>a b d. c # cs = a @ ''['' @ b @ '']'' @ d \<and> b \<noteq> [] \<and> CHR '']'' \<notin> set b"
      using run by blast
    with "2.prems" show ?thesis by blast
  qed
qed

text \<open>
  Claim C1. On the three lines \<^verbatim>\<open>[main abc1234] msg\<close>,
  \<^verbatim>\<open> 1 file changed, 2 insertions(+)\<close> and \<^verbatim>\<open> create mode foo.txt\<close> the commit
  transform does not return the record of the claim, whose \<open>changed\<close> is \<^verbatim>\<open>1\<close> and
  whose \<open>operations\<close> hold the last two lines.
\<close>

theorem example_commit_differs:
  "parsers_commit ''[main abc1234] msg\<newline> 1 file changed, 2 insertions(+)\<newline> create mode foo.txt'' \<noteq>
     Inr (Committed \<lparr>branch = Some ''main'', commit = Some ''abc1234'', changed = Some ''1'',
            operations = ['' 1 file changed, 2 insertions(+)'', '' create mode foo.txt'']\<rparr>)"
  by code_simp

text \<open>
  Claim C1, as amended. On that input the transform returns a record whose \<open>branch\<close> is
  \<^verbatim>\<open>main\<close>, whose \<open>commit\<close> is \<^verbatim>\<open>abc1234\<close> and whose \<open>operations\<close> are the lines
  from index 2 on, here the one line \<^verbatim>\<open> create mode foo.txt\<close>.
\<close>

theorem commit_example:
  "\<exists>r. parsers_commit ''[main abc1234] msg\<newline> 1 file changed, 2 insertions(+)\<newline> create mode foo.txt''
          = Inr (Committed r)
     \<and> branch r = Some ''main'' \<and> commit r = Some ''abc1234''
     \<and> operations r = ['' create mode foo.txt'']"
proof -
  have "parsers_commit ''[main abc1234] msg\<newline> 1 file changed, 2 insertions(+)\<newline> create mode foo.txt'' =
     Inr (Committed \<lparr>branch = Some ''main'', commit = Some ''abc1234'', changed = Some '''',
            operations = ['' create mode foo.txt'']\<rparr>)"
    by code_simp
  then show ?thesis by simp
qed

text \<open>
  Claim C6. For every input that contains the phrase \<^verbatim>\<open>nothing to commit\<close> or the
  phrase \<^verbatim>\<open>no changes added to commit\<close>, the commit transform raises nothing and
  returns the object whose \<open>error\<close> is the first line without a hash sign, and undefined
  when every line has one.
\<close>

theorem commit_rejected:
  assumes "sublist ''nothing to commit'' output \<or> sublist ''no changes added to commit'' output"
  shows "parsers_commit output =
           Inr (Rejected (find (\<lambda>l. CHR ''#'' \<notin> set l) (split output [LF])))"
  using assms by (auto simp: parsers_commit_def indexOf_sublist first_without_hash_find)

text \<open>The rejection example of the specification.\<close>

theorem commit_rejected_witness:
  "sublist ''nothing to commit'' ''# On branch main\<newline>nothing to commit, working tree clean''
   \<and> parsers_commit ''# On branch main\<newline>nothing to commit, working tree clean'' =
       Inr (Rejected (Some ''nothing to commit, working tree clean''))"
proof -
  have "''# On branch main\<newline>nothing to commit, working tree clean'' =
        ''# On branch main\<newline>'' @ ''nothing to commit'' @ '', working tree clean''"
    by simp
  then have h: "sublist ''nothing to commit'' ''# On branch main\<newline>nothing to commit, working tree clean''"
    unfolding sublist_def by blast
  from commit_rejected [OF disjI1 [OF h]] h show ?thesis
    by (simp add: split_def)
qed

text \<open>
  Claim C7. On an input without the rejection phrases and without a bracketed token in
  line 0 the commit transform does not raise the typed ParseError of the claim: what is
  thrown is the TypeError of the engine.
\<close>

theorem no_bracket_is_not_ParseError:
  "parsers_commit ''fatal: unable to auto-detect email address'' = Inl TypeError
   \<and> parsers_commit ''fatal: unable to auto-detect email address'' \<noteq> Inl ParseError"
  by code_simp

text \<open>
  Claim C7, as amended. For every input that contains neither rejection phrase and whose
  line 0, the text before the first line feed, has no opening bracket followed by one or
  more characters other than a closing bracket and then a closing bracket, the commit
  transform returns nothing and throws a TypeError: \<^verbatim>\<open>match\<close> gives null and the
  element 0 of null is read.
\<close>

theorem commit_no_bracket:
  assumes "\<not> sublist ''nothing to commit'' output"
      and "\<not> sublist ''no changes added to commit'' output"
      and "\<not> (\<exists>a b c. takeWhile (\<lambda>x. x \<noteq> LF) output = a @ ''['' @ b @ '']'' @ c
                  \<and> b \<noteq> [] \<and> CHR '']'' \<notin> set b)"
  shows "parsers_commit output = Inl TypeError"
proof -
  have "bracket_all (takeWhile (\<lambda>x. x \<noteq> LF) output) = []"
    using assms(3) by (rule bracket_all_none)
  then have "match_bracket (takeWhile (\<lambda>x. x \<noteq> LF) output) = None"
    by (simp add: match_bracket_def)
  then show ?thesis
    using assms(1,2) by (simp add: parsers_commit_def indexOf_sublist split_single_0)
qed

theorem commit_no_bracket_witness:
  "parsers_commit ''error: pathspec did not match'' = Inl TypeError"
proof -
  have a: "\<not> sublist ''nothing to commit'' ''error: pathspec did not match''"
    using indexOf_none [of "''error: pathspec did not match''" "''nothing to commit''"]
    by code_simp
  have b: "\<not> sublist ''no changes added to commit'' ''error: pathspec did not match''"
    using indexOf_none [of "''error: pathspec did not match''" "''no changes added to commit''"]
    by code_simp
  have c: "\<not> (\<exists>a b c. takeWhile (\<lambda>x. x \<noteq> LF) ''error: pathspec did not match'' = a @ ''['' @ b @ '']'' @ c
                \<and> b \<noteq> [] \<and> CHR '']'' \<notin> set b)"
  proof
    assume "\<exists>a b c. takeWhile (\<lambda>x. x \<noteq> LF) ''error: pathspec did not match'' = a @ ''['' @ b @ '']'' @ c
                \<and> b \<noteq> [] \<and> CHR '']'' \<notin> set b"
    then obtain a b c where
      e: "takeWhile (\<lambda>x. x \<noteq> LF) ''error: pathspec did not match'' = a @ ''['' @ b @ '']'' @ c"
      by blast
    have "CHR ''['' \<in> set (a @ ''['' @ b @ '']'' @ c)" by simp
    then have "CHR ''['' \<in> set (takeWhile (\<lambda>x. x \<noteq> LF) ''error: pathspec did not match'')"
      by (simp only: e)
    then show False by simp
  qed
  from commit_no_bracket [OF a b c] show ?thesis .
qed

section \<open>The branch transform\<close>

lemma branch_line_step:
  "branch_line tree val =
     (if CHR ''*'' \<in> set val then tree\<lparr>current := Some (trim (remove1 (CHR ''*'') val))\<rparr>
      else if val \<noteq> [] then tree\<lparr>others := others tree @ [trim val]\<rparr>
      else tree)"
  by (simp add: branch_line_def indexOf_sublist sublist_single replace_single_empty)

lemma branch_fold_others:
  "others (foldl branch_line tree ls) =
     others tree @ map trim (filter (\<lambda>l. CHR ''*'' \<notin> set l \<and> l \<noteq> []) ls)"
  by (induction ls arbitrary: tree) (simp_all add: branch_line_step)

lemma branch_fold_current_unmarked:
  "\<forall>l \<in> set ls. CHR ''*'' \<notin> set l \<Longrightarrow> current (foldl branch_line tree ls) = current tree"
  by (induction ls arbitrary: tree) (simp_all add: branch_line_step)

text \<open>
  Claim C8. For every input in which exactly one line, line \<open>i\<close>, contains an asterisk,
  the branch transform sets \<open>current\<close> to that line without its first asterisk and
  trimmed, and \<open>others\<close> is, in the order of the input, the trimmed non-empty lines
  among all the lines but line \<open>i\<close>.
\<close>

theorem branch_one_marked:
  assumes i: "i < length (split output [LF])"
      and marked: "CHR ''*'' \<in> set (split output [LF] ! i)"
      and unique: "\<forall>j < length (split output [LF]). j \<noteq> i \<longrightarrow> CHR ''*'' \<notin> set (split output [LF] ! j)"
  shows "current (parsers_branch output) = Some (trim (remove1 (CHR ''*'') (split output [LF] ! i)))
       \<and> others (parsers_branch output) =
           map trim (filter (\<lambda>l. l \<noteq> []) (take i (split output [LF]) @ drop (Suc i) (split output [LF])))"
proof -
  let ?ls = "split output [LF]"
  let ?t0 = "\<lparr>current = None, others = []\<rparr>"
  have decomp: "?ls = take i ?ls @ ?ls ! i # drop (Suc i) ?ls"
    using i by (rule id_take_nth_drop)
  have before: "\<forall>l \<in> set (take i ?ls). CHR ''*'' \<notin> set l"
  proof
    fix l assume "l \<in> set (take i ?ls)"
    then obtain j where "j < i" "l = ?ls ! j"
      using i by (auto simp: in_set_conv_nth)
    with unique i show "CHR ''*'' \<notin> set l" by auto
  qed
  have after: "\<forall>l \<in> set (drop (Suc i) ?ls). CHR ''*'' \<notin> set l"
  proof
    fix l assume "l \<in> set (drop (Suc i) ?ls)"
    then obtain j where "j < length ?ls - Suc i" "l = ?ls ! (Suc i + j)"
      by (auto simp: in_set_conv_nth)
    then have "Suc i + j < length ?ls" "Suc i + j \<noteq> i" "l = ?ls ! (Suc i + j)" by auto
    with unique show "CHR ''*'' \<notin> set l" by blast
  qed
  have "parsers_branch output =
      foldl branch_line (branch_line (foldl branch_line ?t0 (take i ?ls)) (?ls ! i)) (drop (Suc i) ?ls)"
    unfolding parsers_branch_def by (subst decomp) simp
  then have cur: "current (parsers_branch output) = Some (trim (remove1 (CHR ''*'') (?ls ! i)))"
    using marked by (simp add: branch_fold_current_unmarked [OF after] branch_line_step)
  have "filter (\<lambda>l. CHR ''*'' \<notin> set l \<and> l \<noteq> []) ?ls =
        filter (\<lambda>l. CHR ''*'' \<notin> set l \<and> l \<noteq> []) (take i ?ls) @
        filter (\<lambda>l. CHR ''*'' \<notin> set l \<and> l \<noteq> []) (drop (Suc i) ?ls)"
    using marked by (subst decomp) simp
  also have "filter (\<lambda>l. CHR ''*'' \<notin> set l \<and> l \<noteq> []) (take i ?ls) = filter (\<lambda>l. l \<noteq> []) (take i ?ls)"
    using before by (intro filter_cong) auto
  also have "filter (\<lambda>l. CHR ''*'' \<notin> set l \<and> l \<noteq> []) (drop (Suc i) ?ls) = filter (\<lambda>l. l \<noteq> []) (drop (Suc i) ?ls)"
    using after by (intro filter_cong) auto
  finally have "others (parsers_branch output) =
      map trim (filter (\<lambda>l. l \<noteq> []) (take i ?ls @ drop (Suc i) ?ls))"
    by (simp add: parsers_branch_def branch_fold_others)
  with cur show ?thesis by simp
qed

theorem branch_one_marked_witness:
  "current (parsers_branch ''* main\<newline>  dev\<newline>'') = Some ''main''
   \<and> others (parsers_branch ''* main\<newline>  dev\<newline>'') = [''dev'']"
proof -
  have sp: "split ''* main\<newline>  dev\<newline>'' [LF] = [''* main'', ''  dev'', '''']"
    by (simp add: split_def)
  show ?thesis
    using branch_one_marked [of 0 "''* main\<newline>  dev\<newline>''"]
    by (simp add: sp All_less_Suc trim_def is_space_def)
qed

section \<open>The tag and sync-error transforms\<close>

text \<open>The loop keeps every non-empty entry, in its place among the non-empty ones.\<close>

lemma remove_empty_loop_keeps_order:
  "filter (\<lambda>l. l \<noteq> []) (remove_empty_loop tags i) = filter (\<lambda>l. l \<noteq> []) tags"
proof (induction tags i rule: remove_empty_loop.induct)
  case (1 tags i)
  show ?case
  proof (cases "i < length tags")
    case False
    then show ?thesis by (subst remove_empty_loop.simps) simp
  next
    case True
    show ?thesis
    proof (cases "tags ! i = []")
      case e: True
      have "tags = take i tags @ tags ! i # drop (Suc i) tags"
        using True by (rule id_take_nth_drop)
      then have "filter (\<lambda>l. l \<noteq> []) tags = filter (\<lambda>l. l \<noteq> []) (take i tags @ [] # drop (Suc i) tags)"
        using e by simp
      then have "filter (\<lambda>l. l \<noteq> []) (splice1 tags i) = filter (\<lambda>l. l \<noteq> []) tags"
        by (simp add: splice1_def)
      with "1.IH"(1) True e show ?thesis
        by (subst remove_empty_loop.simps) simp
    next
      case ne: False
      with "1.IH"(2) True show ?thesis
        by (subst remove_empty_loop.simps) simp
    qed
  qed
qed

text \<open>
  Claim C2. The sequences returned by the tag transform and by the sync-error transform
  are claimed to hold no empty string. The loop goes on to index \<open>i + 1\<close> after it has
  removed the entry at \<open>i\<close>, so of two empty entries in a row the second stays: two blank
  lines between two tags, or between two lines of an error text, leave an empty string
  in the result.
\<close>

theorem tag_syncErr_keep_empty:
  "parsers_tag ''v1\<newline>\<newline>\<newline>v2'' = [''v1'', '''', ''v2'']
   \<and> parsers_syncErr (''fatal'' @ [CR, LF, CR, LF, CR, LF] @ ''error'') = [''fatal'', '''', ''error'']"
  by code_simp

section \<open>The remotes transform\<close>

lemma remotes_line_step:
  "remotes_line m l =
     (if takeWhile (\<lambda>x. x \<noteq> TAB) l = [] then Inr m
      else if TAB \<notin> set l then Inl TypeError
      else Inr (obj_set m (takeWhile (\<lambda>x. x \<noteq> TAB) l)
             (Some (takeWhile (\<lambda>x. x \<noteq> CHR '' '')
                (takeWhile (\<lambda>x. x \<noteq> TAB) (drop 1 (dropWhile (\<lambda>x. x \<noteq> TAB) l)))))))"
  by (simp add: remotes_line_def split_single_0 split_single_1)

lemma remotes_each_error:
  "l \<in> set ls \<Longrightarrow> l \<noteq> [] \<Longrightarrow> TAB \<notin> set l \<Longrightarrow> remotes_each m ls = Inl TypeError"
proof (induction ls arbitrary: m)
  case Nil
  then show ?case by simp
next
  case (Cons a ls)
  show ?case
  proof (cases "remotes_line m a")
    case (Inl e)
    then have "e = TypeError" by (auto simp: remotes_line_step split: if_splits)
    with Inl show ?thesis by simp
  next
    case (Inr m')
    have "a \<noteq> l"
    proof
      assume al: "a = l"
      have tw: "takeWhile (\<lambda>x. x \<noteq> TAB) l = l"
        using Cons.prems(3) by (auto simp: takeWhile_eq_all_conv)
      have "remotes_line m l = Inl TypeError"
        using Cons.prems(2,3) by (simp add: remotes_line_step tw)
      with al have "remotes_line m a = Inl TypeError" by simp
      with Inr show False by simp
    qed
    with Cons.prems have "l \<in> set ls" by simp
    then have "remotes_each m' ls = Inl TypeError"
      using Cons.prems(2,3) by (rule Cons.IH)
    with Inr show ?thesis by simp
  qed
qed

text \<open>
  Claim C10. For every input with a non-empty line that has no tab, the remotes transform
  throws a TypeError: the second tab field of that line is undefined, and \<^verbatim>\<open>split\<close>
  is called on it. The line is not skipped, and the error is not the typed ParseError.
\<close>

theorem remotes_line_without_tab:
  assumes "l \<in> set (split output [LF])" and "l \<noteq> []" and "TAB \<notin> set l"
  shows "parsers_remotes output = Inl TypeError"
  unfolding parsers_remotes_def using assms by (rule remotes_each_error)

theorem remotes_line_without_tab_witness:
  "parsers_remotes ''origin'' = Inl TypeError \<and> parsers_remotes ''origin'' \<noteq> Inl ParseError"
  using remotes_line_without_tab [of "''origin''" "''origin''"]
  by (simp add: split_def)

lemma remotes_each_ok:
  "\<forall>l \<in> set ls. takeWhile (\<lambda>x. x \<noteq> TAB) l \<noteq> [] \<longrightarrow> TAB \<in> set l \<Longrightarrow>
   \<exists>m'. remotes_each m ls = Inr m'"
proof (induction ls arbitrary: m)
  case Nil
  show ?case by simp
next
  case (Cons a ls)
  then have "\<exists>m1. remotes_line m a = Inr m1"
    by (simp add: remotes_line_step)
  then obtain m1 where "remotes_line m a = Inr m1" by blast
  moreover from Cons obtain m' where "remotes_each m1 ls = Inr m'" by auto
  ultimately show ?case by simp
qed

lemma remotes_each_other:
  "remotes_each m ls = Inr m' \<Longrightarrow> \<forall>l \<in> set ls. takeWhile (\<lambda>x. x \<noteq> TAB) l \<noteq> n \<Longrightarrow> m' n = m n"
proof (induction ls arbitrary: m)
  case Nil
  then show ?case by simp
next
  case (Cons a ls)
  from Cons.prems(1) obtain m1 where a: "remotes_line m a = Inr m1" and r: "remotes_each m1 ls = Inr m'"
    by (auto split: sum.splits)
  from a Cons.prems(2) have "m1 n = m n"
    by (auto simp: remotes_line_step obj_set_def split: if_splits)
  moreover from r Cons.prems(2) have "m' n = m1 n" by (intro Cons.IH) auto
  ultimately show ?case by simp
qed

lemma remotes_each_append:
  "remotes_each m (xs @ ys) =
     (case remotes_each m xs of Inl e \<Rightarrow> Inl e | Inr m1 \<Rightarrow> remotes_each m1 ys)"
  by (induction xs arbitrary: m) (auto split: sum.splits)

text \<open>
  Claim C9. Of two lines with the same remote name and different URLs the mapping must
  bind the name to the URL of the later line. The assignment \<^verbatim>\<open>list[name] = url\<close>
  does bind every other name, but not the remote name \<^verbatim>\<open>__proto__\<close>: on the two
  lines below the call returns a mapping in which that name is bound to no URL, neither
  the later one nor the earlier one.
\<close>

theorem remotes_proto_not_bound:
  "\<not> isl (parsers_remotes (''__proto__'' @ [TAB] @ ''u1 (fetch)\<newline>__proto__'' @ [TAB] @ ''u2 (push)''))
   \<and> projr (parsers_remotes (''__proto__'' @ [TAB] @ ''u1 (fetch)\<newline>__proto__'' @ [TAB] @ ''u2 (push)''))
        ''__proto__'' = None"
  by (simp add: parsers_remotes_def split_def remotes_line_def index_def obj_set_def)

text \<open>
  For every other name the last write wins. Let every line with a non-empty first field
  have a tab, so that a mapping is returned. Let lines \<open>i < j\<close> begin with the same
  name and a tab, the name not being \<^verbatim>\<open>__proto__\<close>, let their URLs differ, the URL
  of a line being its second tab field up to the first space, and let no line after \<open>j\<close>
  have that name as its first field. Then the mapping returned binds the name to the URL
  of line \<open>j\<close>, and not to the URL of line \<open>i\<close>.
\<close>

lemma remotes_last_wins:
  assumes tabs: "\<forall>l \<in> set (split output [LF]). takeWhile (\<lambda>x. x \<noteq> TAB) l \<noteq> [] \<longrightarrow> TAB \<in> set l"
      and ij: "i < j" "j < length (split output [LF])"
      and li: "split output [LF] ! i = name @ TAB # rest1"
      and lj: "split output [LF] ! j = name @ TAB # rest2"
      and name: "name \<noteq> []" "TAB \<notin> set name" "name \<noteq> ''__proto__''"
      and diff: "takeWhile (\<lambda>x. x \<noteq> CHR '' '') (takeWhile (\<lambda>x. x \<noteq> TAB) rest1) \<noteq>
                 takeWhile (\<lambda>x. x \<noteq> CHR '' '') (takeWhile (\<lambda>x. x \<noteq> TAB) rest2)"
      and last: "\<forall>k. j < k \<and> k < length (split output [LF]) \<longrightarrow>
                   takeWhile (\<lambda>x. x \<noteq> TAB) (split output [LF] ! k) \<noteq> name"
  shows "\<exists>m. parsers_remotes output = Inr m
            \<and> m name = Some (Some (takeWhile (\<lambda>x. x \<noteq> CHR '' '') (takeWhile (\<lambda>x. x \<noteq> TAB) rest2)))
            \<and> m name \<noteq> Some (Some (takeWhile (\<lambda>x. x \<noteq> CHR '' '') (takeWhile (\<lambda>x. x \<noteq> TAB) rest1)))"
proof -
  let ?ls = "split output [LF]"
  let ?url2 = "takeWhile (\<lambda>x. x \<noteq> CHR '' '') (takeWhile (\<lambda>x. x \<noteq> TAB) rest2)"
  have decomp: "?ls = take j ?ls @ [?ls ! j] @ drop (Suc j) ?ls"
    using ij(2) id_take_nth_drop [of j ?ls] by simp
  from remotes_each_ok [OF tabs, of Map.empty]
  obtain m where m: "remotes_each Map.empty ?ls = Inr m" by blast
  then have "remotes_each Map.empty (take j ?ls @ [?ls ! j] @ drop (Suc j) ?ls) = Inr m"
    using decomp by simp
  then obtain m1 m2 where m1: "remotes_each Map.empty (take j ?ls) = Inr m1"
      and m2: "remotes_line m1 (?ls ! j) = Inr m2"
      and m3: "remotes_each m2 (drop (Suc j) ?ls) = Inr m"
    by (auto simp: remotes_each_append split: sum.splits)
  have "m2 = obj_set m1 name (Some ?url2)"
    using m2 name(1,2) by (simp add: lj remotes_line_step takeWhile_upto dropWhile_upto)
  then have "m2 name = Some (Some ?url2)"
    using name(3) by (simp add: obj_set_def)
  moreover have "\<forall>l \<in> set (drop (Suc j) ?ls). takeWhile (\<lambda>x. x \<noteq> TAB) l \<noteq> name"
  proof
    fix l assume "l \<in> set (drop (Suc j) ?ls)"
    then obtain k where "k < length ?ls - Suc j" "l = ?ls ! (Suc j + k)"
      by (auto simp: in_set_conv_nth)
    then have "j < Suc j + k \<and> Suc j + k < length ?ls" "l = ?ls ! (Suc j + k)" by auto
    with last show "takeWhile (\<lambda>x. x \<noteq> TAB) l \<noteq> name" by blast
  qed
  then have "m name = m2 name" using m3 by (intro remotes_each_other) auto
  ultimately have "m name = Some (Some ?url2)" by simp
  with m diff show ?thesis by (auto simp: parsers_remotes_def)
qed

lemma remotes_last_wins_example:
  "\<exists>m. parsers_remotes (''origin'' @ [TAB] @ ''git@a:x.git (fetch)\<newline>origin'' @ [TAB] @ ''git@b:y.git (push)'') = Inr m
       \<and> m ''origin'' = Some (Some ''git@b:y.git'') \<and> m ''origin'' \<noteq> Some (Some ''git@a:x.git'')"
proof -
  have sp: "split (''origin'' @ [TAB] @ ''git@a:x.git (fetch)\<newline>origin'' @ [TAB] @ ''git@b:y.git (push)'') [LF] =
       [''origin'' @ TAB # ''git@a:x.git (fetch)'', ''origin'' @ TAB # ''git@b:y.git (push)'']"
    by (simp add: split_def)
  show ?thesis
    using remotes_last_wins [of "''origin'' @ [TAB] @ ''git@a:x.git (fetch)\<newline>origin'' @ [TAB] @ ''git@b:y.git (push)''"
        0 1 "''origin''" "''git@a:x.git (fetch)''" "''git@b:y.git (push)''"]
    by (simp add: sp [simplified] All_less_Suc)
qed

section \<open>The log transform\<close>

lemma kv_scan_no_quote: "DQUOTE \<notin> set s \<Longrightarrow> kv_scan s = map Lit s"
  by (induction s) (auto simp: kv_at_def)

lemma match_kv_no_quote: "DQUOTE \<notin> set s \<Longrightarrow> match_kv s = []"
  by (simp add: match_kv_def kv_scan_no_quote)

lemma tokens_skip_ws: "\<forall>c \<in> set ws. is_json_ws c \<Longrightarrow> tokens (ws @ s) = tokens s"
  by (induction ws) auto

lemma json_ws_not_quote: "is_json_ws c \<Longrightarrow> c \<noteq> DQUOTE"
  by (auto simp: is_json_ws_def)

text \<open>
  Claim C3. An input with no record, the empty string in particular, is claimed to make
  the log transform raise. On the empty string the text parsed is \<^verbatim>\<open>[]\<close>, and the
  transform returns the empty sequence.
\<close>

theorem log_of_empty_string:
  "parsers_log [] = Inr (JArray []) \<and> parsers_log [] \<noteq> Inl ParseError"
  by code_simp

text \<open>
  Claim C3, as amended. For every input whose characters before the last one are all
  JSON white space (the empty string, a lone delimiter, a blank text), the log transform
  raises nothing and returns the empty sequence.
\<close>

theorem log_blank_input:
  assumes "\<forall>c \<in> set (butlast output). is_json_ws c"
  shows "parsers_log output = Inr (JArray [])"
proof -
  let ?ws = "butlast output"
  have "DQUOTE \<notin> set ?ws"
    using assms json_ws_not_quote by blast
  then have nq: "DQUOTE \<notin> set (CHR ''['' # ?ws @ '']'')"
    by simp
  have "tokens (''['' @ ?ws @ '']'') = push_token TLBracket (tokens (?ws @ '']''))"
    by (simp add: is_json_ws_def)
  also have "tokens (?ws @ '']'') = tokens '']''"
    using assms by (rule tokens_skip_ws)
  also have "tokens '']'' = Some [TRBracket]"
    by (simp add: is_json_ws_def push_token_def)
  finally have "JSON_parse (''['' @ ?ws @ '']'') = Inr (JArray [])"
    by (simp add: JSON_parse_def push_token_def)
  then show ?thesis
    by (simp add: parsers_log_def substring_butlast match_kv_no_quote [OF nq] Let_def)
qed

theorem log_blank_input_witness:
  "parsers_log '' ,'' = Inr (JArray [])"
  using log_blank_input [of "'' ,''"] by (simp add: is_json_ws_def)

lemma hex_char:
  assumes "c \<in> set ''0123456789abcdef''"
  shows "c \<noteq> DQUOTE" "c \<noteq> BACKSLASH" "c \<noteq> CHR ''$''" "c \<noteq> CHR ''H''" "is_dot c"
    "\<not> (of_char c :: nat) < 32"
  using assms by (auto simp: is_dot_def)

lemma kv_value_hex:
  "set h \<subseteq> set ''0123456789abcdef'' \<Longrightarrow> kv_value (h @ DQUOTE # CHR '','' # rest) = Some (h, rest)"
proof (induction h)
  case Nil
  show ?case by simp
next
  case (Cons c h)
  then have "c \<in> set ''0123456789abcdef''" and "set h \<subseteq> set ''0123456789abcdef''" by auto
  then show ?case using Cons.IH by (simp add: hex_char)
qed

lemma lex_string_hex:
  "set h \<subseteq> set ''0123456789abcdef'' \<Longrightarrow> lex_string (h @ DQUOTE # rest) = Some (units h, rest)"
proof (induction h)
  case Nil
  show ?case by simp
next
  case (Cons c h)
  then have "c \<in> set ''0123456789abcdef''" and "set h \<subseteq> set ''0123456789abcdef''" by auto
  then show ?case using Cons.IH by (simp add: hex_char push_unit_def)
qed

lemma escape_quotes_plain: "DQUOTE \<notin> set s \<Longrightarrow> escape_quotes s = s"
  by (induction s) (auto simp: escape_quotes_def)

lemma kv_scan_commit_field:
  assumes h: "set h \<subseteq> set ''0123456789abcdef''"
  shows \<open>kv_scan (''"commit": "'' @ h @ ''",'' @ rest) =
           Match (''"commit": "'' @ h @ ''",'') h # kv_scan rest\<close>
proof -
  define m where \<open>m = ''"commit": "'' @ h @ ''",''\<close>
  define cs where \<open>cs = ''commit": "'' @ h @ ''",'' @ rest\<close>
  have s: "m @ rest = DQUOTE # cs"
    by (simp add: m_def cs_def)
  have "kv_at (DQUOTE # cs) = Some (h, rest)"
    using kv_value_hex [OF h, of rest] by (simp add: cs_def kv_at_def is_dot_def)
  then have "kv_scan (DQUOTE # cs) =
      Match (take (Suc (length cs) - length rest) (DQUOTE # cs)) h # kv_scan rest"
    by simp
  moreover have "Suc (length cs) - length rest = length m"
    by (simp add: m_def cs_def)
  ultimately have "kv_scan (m @ rest) = Match (take (length m) (m @ rest)) h # kv_scan rest"
    by (simp only: s)
  then have "kv_scan (m @ rest) = Match m h # kv_scan rest"
    by simp
  then show ?thesis by (simp add: m_def)
qed

text \<open>
  Claim C5. A single record whose message is \<^verbatim>\<open>He said "hi"\<close>, its inner quotes as
  the upstream tool prints them, without a backslash, must decode to one entry whose
  message is exactly that text. The repair replaces the first occurrence of each value
  in the whole text, and the replacement text is read with its dollar patterns. So the
  decoding fails, with the SyntaxError of JSON.parse, on the record whose author holds
  the text of the message, where the author is escaped in place of the message and the
  quotes of the message then stay as they are, and on the record whose author holds
  \<^verbatim>\<open>$'\<close>, where the text after the match is pasted into the author.
\<close>

theorem log_quoted_message_lost:
  \<open>parsers_log ''{"commit": "abc1234","author": "He said "hi" <a@b.c>","date": "Mon Nov 2 2026","message": "He said "hi""},''
      = Inl SyntaxError
   \<and> parsers_log (''{"commit": "abc1234","author": "A$'' @ [CHR 0x27] @
                    ''B <a@b.c>","date": "Mon Nov 2 2026","message": "He said "hi""},'')
      = Inl SyntaxError\<close>
  by code_simp

text \<open>
  On other records the quotes of the message are kept: on the record with a commit field
  and the message, whatever the hash \<open>h\<close> of lower-case hexadecimal digits.
\<close>

lemma quoted_message_hex_commit:
  assumes h: "set h \<subseteq> set ''0123456789abcdef''"
  shows \<open>parsers_log (''{"commit": "'' @ h @ ''","message": "He said "hi""},'') =
      Inr (JArray [JObject [(units ''commit'', JString (units h)),
                            (units ''message'', JString (units ''He said "hi"''))]])\<close>
proof -
  let ?p = \<open>''He said "hi"''\<close>
  let ?a = \<open>''[{"commit": "'' @ h @ ''","message": "''\<close>
  let ?log = \<open>''[{"commit": "'' @ h @ ''","message": "He said "hi""}]''\<close>
  let ?m1 = \<open>''"commit": "'' @ h @ ''",''\<close>
  let ?m2 = \<open>''"message": "He said "hi""}''\<close>
  have nq: "DQUOTE \<notin> set h" and nd: "CHR ''$'' \<notin> set h" and nH: "CHR ''H'' \<notin> set h"
    using h hex_char by blast+
  have sub: \<open>substring (''{"commit": "'' @ h @ ''","message": "He said "hi""},'') 0
          (int (length (''{"commit": "'' @ h @ ''","message": "He said "hi""},'')) - 1) =
        ''{"commit": "'' @ h @ ''","message": "He said "hi""}''\<close>
    by (simp only: substring_butlast) (simp add: butlast_append)
  have tail: \<open>kv_scan ''"message": "He said "hi""}]'' = [Match ?m2 ?p, Lit (CHR '']'')]\<close>
    by code_simp
  have \<open>kv_scan ?log = [Lit (CHR ''[''), Lit (CHR ''{''), Match ?m1 h, Match ?m2 ?p, Lit (CHR '']'')]\<close>
    using kv_scan_commit_field [OF h, of \<open>''"message": "He said "hi""}]''\<close>] tail
    by (simp add: kv_at_def)
  then have matches: "match_kv ?log = [?m1, ?m2]"
    by (simp add: match_kv_def)
  have g2: "replace_kv_group ?m2 = ?p"
    by code_simp
  have g1: "replace_kv_group ?m1 = h"
    using kv_scan_commit_field [OF h, of "[]"] by (simp add: replace_kv_group_def)
  have e2: \<open>escape_quotes ?p = ''He said '' @ [BACKSLASH] @ ''"hi'' @ [BACKSLASH] @ ''"''\<close>
    by (simp add: escape_quotes_def)
  have \<open>replace (?a @ ?p @ ''"}]'') ?p (escape_quotes ?p) =
          ?a @ get_substitution ?p ?a ''"}]'' (escape_quotes ?p) @ ''"}]''\<close>
    by (rule replace_first) (use nH in simp_all)
  then have r2: \<open>log_repair ?log ?m2 = ?a @ escape_quotes ?p @ ''"}]''\<close>
    by (simp add: log_repair_def g2 get_substitution_plain e2)
  have r1: "log_repair s ?m1 = s" for s
    by (simp only: log_repair_def g1 Let_def escape_quotes_plain [OF nq] replace_self [OF nd])
  have t2: \<open>tokens ('',"message": "He said '' @ [BACKSLASH] @ ''"hi'' @ [BACKSLASH] @ ''""}]'') =
      Some [TComma, TStr (units ''message''), TColon, TStr (units ''He said "hi"''), TRBrace, TRBracket]\<close>
    by code_simp
  have \<open>tokens (?a @ escape_quotes ?p @ ''"}]'') =
      Some [TLBracket, TLBrace, TStr (units ''commit''), TColon, TStr (units h),
            TComma, TStr (units ''message''), TColon, TStr (units ''He said "hi"''), TRBrace, TRBracket]\<close>
    using lex_string_hex [OF h, of \<open>'',"message": "He said '' @ [BACKSLASH] @ ''"hi'' @ [BACKSLASH] @ ''""}]''\<close>] t2
    by (simp add: e2 is_json_ws_def push_token_def push_unit_def)
  then have \<open>JSON_parse (?a @ escape_quotes ?p @ ''"}]'') =
      Inr (JArray [JObject [(units ''commit'', JString (units h)),
                            (units ''message'', JString (units ''He said "hi"''))]])\<close>
    by (simp add: JSON_parse_def)
  then show ?thesis
    unfolding parsers_log_def sub Let_def
    using matches r2 r1 by simp
qed

lemma quoted_message_hex_commit_example:
  \<open>parsers_log ''{"commit": "abc1234","message": "He said "hi""},'' =
      Inr (JArray [JObject [(units ''commit'', JString (units ''abc1234'')),
                            (units ''message'', JString (units ''He said "hi"''))]])\<close>
  using quoted_message_hex_commit [of "''abc1234''"] by simp

text \<open>
  The same for the record with the message alone and for a record with the four fields
  commit, author, date and message whose values hold no quote and no dollar sign.
\<close>

lemma quoted_message_examples:
  \<open>parsers_log ''{"message": "He said "hi""},'' =
      Inr (JArray [JObject [(units ''message'', JString (units ''He said "hi"''))]])
   \<and> parsers_log ''{"commit": "abc1234","author": "A U Thor <a@b.c>","date": "Mon Nov 2 2026","message": "He said "hi""},'' =
      Inr (JArray [JObject [(units ''commit'', JString (units ''abc1234'')),
                            (units ''author'', JString (units ''A U Thor <a@b.c>'')),
                            (units ''date'', JString (units ''Mon Nov 2 2026'')),
                            (units ''message'', JString (units ''He said "hi"''))]])\<close>
  by code_simp

end
